theory Spec2Isabelle
  imports Main
begin

section \<open>PymongoIterator: an iterator that reopens a lost cursor\<close>

text \<open>
  The embedding follows \<^verbatim>\<open>src/pymongo_iterator.py\<close>. Python integers are \<open>int\<close>.
  Every call the class makes on its collaborators (the collection, its cursors, and
  \<^verbatim>\<open>print\<close>) is a step on an explicit environment, which also keeps the list of the
  calls made so far. An exception is a value \<open>Inl\<close> of a sum type.
\<close>

subsection \<open>Exceptions, messages, cursors\<close>

text \<open>
  The exceptions that reach \<^verbatim>\<open>__next__\<close>: Python's \<^verbatim>\<open>StopIteration\<close>, pymongo's
  \<^verbatim>\<open>CursorNotFound\<close> (the only one the class catches), and any other exception, kept
  by its name.
\<close>

datatype exn = StopIteration | CursorNotFound | OtherError string

text \<open>The three \<^verbatim>\<open>print\<close> calls of the class, with their numeric arguments.\<close>

datatype message =
    Iterating int          \<comment> \<open>\<^verbatim>\<open>print("Iterating over", total_docs, "documents...")\<close>\<close>
  | ParsingDoc int int     \<comment> \<open>\<^verbatim>\<open>print("Parsing doc", i, "of", total_docs)\<close>\<close>
  | LostCursor             \<comment> \<open>\<^verbatim>\<open>print("Lost cursor, reinitializing...")\<close>\<close>

text \<open>
  A cursor object as the client holds it: the handle the collection gave out for it and
  the options set on it by \<^verbatim>\<open>find\<close>, \<^verbatim>\<open>.sort\<close>, \<^verbatim>\<open>.skip\<close> and \<^verbatim>\<open>.limit\<close>. A cursor on
  which \<^verbatim>\<open>.sort\<close> was never called has \<open>c_sort = None\<close>; \<open>c_skip\<close> and \<open>c_limit\<close> are 0
  until set, and a limit of 0 asks for all documents.
\<close>

record ('f, 's) cursor =
  c_handle :: nat
  c_filter :: 'f
  c_no_cursor_timeout :: bool
  c_sort :: "'s option"
  c_skip :: int
  c_limit :: int

definition new_cursor :: "nat \<Rightarrow> 'f \<Rightarrow> bool \<Rightarrow> ('f, 's) cursor" where
  "new_cursor h f nct =
     \<lparr>c_handle = h, c_filter = f, c_no_cursor_timeout = nct, c_sort = None,
      c_skip = 0, c_limit = 0\<rparr>"

definition sort_c :: "'s \<Rightarrow> ('f, 's) cursor \<Rightarrow> ('f, 's) cursor" where
  "sort_c so c = c\<lparr>c_sort := Some so\<rparr>"

definition skip_c :: "int \<Rightarrow> ('f, 's) cursor \<Rightarrow> ('f, 's) cursor" where
  "skip_c k c = c\<lparr>c_skip := k\<rparr>"

definition limit_c :: "int \<Rightarrow> ('f, 's) cursor \<Rightarrow> ('f, 's) cursor" where
  "limit_c l c = c\<lparr>c_limit := l\<rparr>"

subsection \<open>The collection and the environment\<close>

text \<open>
  The collection is a parameter of the class. Its operations act on a state \<open>'w\<close> of the
  database and the connection, about which nothing is assumed: \<^verbatim>\<open>count_documents\<close>
  and \<^verbatim>\<open>find\<close> return a value or raise, \<^verbatim>\<open>next(cursor)\<close> returns a document or raises,
  \<^verbatim>\<open>cursor.close()\<close> returns or raises.
\<close>

record ('w, 'f, 's, 'd) collection =
  count_documents :: "'f \<Rightarrow> int \<Rightarrow> int \<Rightarrow> 'w \<Rightarrow> (exn + int) \<times> 'w"
  find_opts :: "'f \<Rightarrow> bool \<Rightarrow> 'w \<Rightarrow> (exn + nat) \<times> 'w"
  cursor_next :: "('f, 's) cursor \<Rightarrow> 'w \<Rightarrow> (exn + 'd) \<times> 'w"
  cursor_close :: "('f, 's) cursor \<Rightarrow> 'w \<Rightarrow> exn option \<times> 'w"

datatype ('f, 's) call =
    CountDocuments 'f int int
  | Find 'f bool
  | Next "('f, 's) cursor"
  | Close "('f, 's) cursor"
  | Print message

record ('w, 'f, 's) env =
  calls :: "('f, 's) call list"
  world :: 'w

definition do_call :: "('f, 's) call \<Rightarrow> 'w \<Rightarrow> ('w, 'f, 's) env \<Rightarrow> ('w, 'f, 's) env" where
  "do_call c w e = \<lparr>calls = calls e @ [c], world = w\<rparr>"

definition do_print :: "message \<Rightarrow> ('w, 'f, 's) env \<Rightarrow> ('w, 'f, 's) env" where
  "do_print m e = e\<lparr>calls := calls e @ [Print m]\<rparr>"

subsection \<open>The class\<close>

record ('f, 's, 'd) pymongo_iterator =
  self_search_opts :: 'f
  self_sort_opts :: 's
  self_skip :: int
  self_disp_progress :: int
  self_limit :: int
  self_i :: int
  self_total_docs :: int
  self_cursor :: "('f, 's) cursor"
  self_doc :: "'d option"

text \<open>\<^verbatim>\<open>__init__\<close>: an exception of \<^verbatim>\<open>count_documents\<close> or \<^verbatim>\<open>find\<close> leaves no object.\<close>

definition init ::
  "('w, 'f, 's, 'd) collection \<Rightarrow> 'f \<Rightarrow> 's \<Rightarrow> int \<Rightarrow> int \<Rightarrow> int \<Rightarrow> ('w, 'f, 's) env \<Rightarrow>
   (exn + ('f, 's, 'd) pymongo_iterator) \<times> ('w, 'f, 's) env" where
  "init collection search_opts sort_opts skip limit disp_progress e =
     (let lim = (if limit = 0 then 2 ^ 31 else limit);
          (r, w1) = count_documents collection search_opts skip lim (world e);
          e1 = do_call (CountDocuments search_opts skip lim) w1 e
      in case r of
           Inl ex \<Rightarrow> (Inl ex, e1)
         | Inr n \<Rightarrow>
             (let e2 = do_print (Iterating n) e1;
                  (fr, w3) = find_opts collection search_opts True (world e2);
                  e3 = do_call (Find search_opts True) w3 e2
              in case fr of
                   Inl ex \<Rightarrow> (Inl ex, e3)
                 | Inr h \<Rightarrow>
                     (Inr \<lparr>self_search_opts = search_opts, self_sort_opts = sort_opts,
                           self_skip = skip, self_disp_progress = disp_progress,
                           self_limit = lim, self_i = 0, self_total_docs = n,
                           self_cursor =
                             limit_c lim (skip_c skip (sort_c sort_opts
                               (new_cursor h search_opts True))),
                           self_doc = None\<rparr>, e3)))"

text \<open>
  \<^verbatim>\<open>__reinitialize\<close>: the new cursor is stored in \<^verbatim>\<open>self.cursor\<close> before the pull, so it
  stays there when the pull raises; the document goes to a local variable, not to
  \<^verbatim>\<open>self.doc\<close>.
\<close>

definition reinitialize ::
  "('w, 'f, 's, 'd) collection \<Rightarrow> ('f, 's, 'd) pymongo_iterator \<Rightarrow> ('w, 'f, 's) env \<Rightarrow>
   (exn + 'd) \<times> ('f, 's, 'd) pymongo_iterator \<times> ('w, 'f, 's) env" where
  "reinitialize collection self e =
     (let intermediate_limit =
            (if self_limit self \<noteq> 0 then self_limit self - self_i self else 0);
          (fr, w1) = find_opts collection (self_search_opts self) True (world e);
          e1 = do_call (Find (self_search_opts self) True) w1 e
      in case fr of
           Inl ex \<Rightarrow> (Inl ex, self, e1)
         | Inr h \<Rightarrow>
             (let c = limit_c intermediate_limit (skip_c (self_i self + self_skip self)
                        (new_cursor h (self_search_opts self) True));
                  self1 = self\<lparr>self_cursor := c\<rparr>;
                  (r, w2) = cursor_next collection c (world e1);
                  e2 = do_call (Next c) w2 e1
              in case r of
                   Inl ex \<Rightarrow> (Inl ex, self1, e2)
                 | Inr d \<Rightarrow> (Inr d, self1\<lparr>self_i := self_i self1 + 1\<rparr>, e2)))"

text \<open>
  \<^verbatim>\<open>__next__\<close>. The result \<open>Inl StopIteration\<close> is the end of the iteration for the
  caller, whether line 64 raised it or the cursor did.
\<close>

definition next_doc ::
  "('w, 'f, 's, 'd) collection \<Rightarrow> ('f, 's, 'd) pymongo_iterator \<Rightarrow> ('w, 'f, 's) env \<Rightarrow>
   (exn + 'd) \<times> ('f, 's, 'd) pymongo_iterator \<times> ('w, 'f, 's) env" where
  "next_doc collection self e =
     (if self_i self \<ge> self_total_docs self then
        (let (cr, w1) = cursor_close collection (self_cursor self) (world e);
             e1 = do_call (Close (self_cursor self)) w1 e
         in case cr of
              Some ex \<Rightarrow> (Inl ex, self, e1)
            | None \<Rightarrow> (Inl StopIteration, self, e1))
      else
        (let (r, w1) = cursor_next collection (self_cursor self) (world e);
             e1 = do_call (Next (self_cursor self)) w1 e
         in case r of
              Inr d \<Rightarrow>
                (let self1 = self\<lparr>self_doc := Some d\<rparr>;
                     self2 = self1\<lparr>self_i := self_i self1 + 1\<rparr>;
                     e2 = (if self_disp_progress self2 \<noteq> 0
                             \<and> self_i self2 mod self_disp_progress self2 = 0
                           then do_print (ParsingDoc (self_i self2) (self_total_docs self2)) e1
                           else e1)
                 in (Inr d, self2, e2))
            | Inl ex \<Rightarrow>
                (if ex = CursorNotFound
                 then reinitialize collection self (do_print LostCursor e1)
                 else (Inl ex, self, e1))))"

text \<open>\<^verbatim>\<open>__len__\<close> and \<^verbatim>\<open>__iter__\<close>.\<close>

definition len :: "('f, 's, 'd) pymongo_iterator \<Rightarrow> int" where
  "len self = self_total_docs self"

definition iter :: "('f, 's, 'd) pymongo_iterator \<Rightarrow> ('f, 's, 'd) pymongo_iterator" where
  "iter self = self"

text \<open>
  A caller that calls \<^verbatim>\<open>next\<close> \<open>n\<close> times in a row, whatever the outcomes, and keeps
  them in order.
\<close>

fun advance_n ::
  "('w, 'f, 's, 'd) collection \<Rightarrow> nat \<Rightarrow> ('f, 's, 'd) pymongo_iterator \<Rightarrow> ('w, 'f, 's) env \<Rightarrow>
   (exn + 'd) list \<times> ('f, 's, 'd) pymongo_iterator \<times> ('w, 'f, 's) env" where
  "advance_n collection 0 self e = ([], self, e)"
| "advance_n collection (Suc n) self e =
     (case next_doc collection self e of
        (r, self1, e1) \<Rightarrow>
          (case advance_n collection n self1 e1 of
             (rs, self2, e2) \<Rightarrow> (r # rs, self2, e2)))"

text \<open>
  A caller that builds the iterator and then calls \<^verbatim>\<open>next\<close> \<open>n\<close> times. An exception
  of the constructor ends the program.
\<close>

definition iterate_n ::
  "('w, 'f, 's, 'd) collection \<Rightarrow> 'f \<Rightarrow> 's \<Rightarrow> int \<Rightarrow> int \<Rightarrow> int \<Rightarrow> nat \<Rightarrow> ('w, 'f, 's) env \<Rightarrow>
   exn + ((exn + 'd) list \<times> ('f, 's, 'd) pymongo_iterator \<times> ('w, 'f, 's) env)" where
  "iterate_n collection search_opts sort_opts skip limit disp_progress n e =
     (case init collection search_opts sort_opts skip limit disp_progress e of
        (Inl ex, e0) \<Rightarrow> Inl ex
      | (Inr self, e0) \<Rightarrow> Inr (advance_n collection n self e0))"

text \<open>The calls that are count queries.\<close>

fun is_count :: "('f, 's) call \<Rightarrow> bool" where
  "is_count (CountDocuments f sk l) = True"
| "is_count c = False"

text \<open>The range of a 32-bit signed integer.\<close>

definition fits_int32 :: "int \<Rightarrow> bool" where
  "fits_int32 n \<longleftrightarrow> - (2 ^ 31) \<le> n \<and> n \<le> 2 ^ 31 - 1"

subsection \<open>A collection that follows a script\<close>

text \<open>
  Modelled from the spec: the database collection collaborator (pymongo, outside the
  repository), as section 6 describes it: a count operation, a find operation that
  returns a cursor, and a next-pull that returns a document, ends, or raises. This one
  answers from a script, whatever the query: the count query with \<open>sc_count\<close>, each
  next-pull with the next entry of \<open>sc_pulls\<close> (the end of the cursor once the script
  is used up), and \<^verbatim>\<open>close\<close> with \<open>sc_close\<close>. It stands for a database that changes
  or fails while the iteration runs.
\<close>

record 'd script =
  sc_count :: "exn + int"
  sc_pulls :: "(exn + 'd) list"
  sc_close :: "exn option"
  sc_opened :: nat

definition scripted :: "('d script, 'f, 's, 'd) collection" where
  "scripted =
     \<lparr>count_documents = (\<lambda>f sk l w. (sc_count w, w)),
      find_opts = (\<lambda>f nct w. (Inr (sc_opened w), w\<lparr>sc_opened := Suc (sc_opened w)\<rparr>)),
      cursor_next = (\<lambda>c w. case sc_pulls w of
                               [] \<Rightarrow> (Inl StopIteration, w)
                             | r # rs \<Rightarrow> (r, w\<lparr>sc_pulls := rs\<rparr>)),
      cursor_close = (\<lambda>c w. (sc_close w, w))\<rparr>"

definition script_env :: "exn + int \<Rightarrow> (exn + int) list \<Rightarrow> exn option \<Rightarrow> (int script, string, string) env" where
  "script_env cnt pulls cl =
     \<lparr>calls = [], world = \<lparr>sc_count = cnt, sc_pulls = pulls, sc_close = cl, sc_opened = 0\<rparr>\<rparr>"

subsection \<open>A collection that does not change\<close>

text \<open>
  Modelled from the spec: the same collaborator, over a fixed list of documents in
  natural order (section 6 and the glossary: skip discards leading matches, limit
  bounds the matches returned, 0 meaning no bound; a cursor without a sort follows the
  natural order). A filter is a predicate on documents and a sort order is a key, sorted
  ascending. The count query counts the matches after skip and limit. The pulls are
  numbered from 0 over all cursors, and pull \<open>k\<close> is answered by the cursor-not-found
  error when \<open>sn_faulty k\<close>; any other pull delivers the next document of the cursor, or
  ends it. The count query, \<^verbatim>\<open>find\<close> and \<^verbatim>\<open>close\<close> always return. Skip and limit are
  taken non-negative.
\<close>

record 'd snapshot =
  sn_docs :: "'d list"
  sn_faulty :: "nat \<Rightarrow> bool"
  sn_pulls :: nat
  sn_opened :: nat
  sn_pos :: "nat \<Rightarrow> nat"

definition apply_sort :: "('d \<Rightarrow> int) option \<Rightarrow> 'd list \<Rightarrow> 'd list" where
  "apply_sort so xs = (case so of None \<Rightarrow> xs | Some k \<Rightarrow> sort_key k xs)"

definition apply_limit :: "int \<Rightarrow> 'd list \<Rightarrow> 'd list" where
  "apply_limit l xs = (if l = 0 then xs else take (nat l) xs)"

definition results :: "('d \<Rightarrow> bool, 'd \<Rightarrow> int) cursor \<Rightarrow> 'd list \<Rightarrow> 'd list" where
  "results c docs =
     apply_limit (c_limit c)
       (drop (nat (c_skip c)) (apply_sort (c_sort c) (filter (c_filter c) docs)))"

definition matched :: "('d \<Rightarrow> bool) \<Rightarrow> int \<Rightarrow> int \<Rightarrow> 'd list \<Rightarrow> int" where
  "matched f sk l docs = int (length (apply_limit l (drop (nat sk) (filter f docs))))"

definition snapshot_db :: "('d snapshot, 'd \<Rightarrow> bool, 'd \<Rightarrow> int, 'd) collection" where
  "snapshot_db =
     \<lparr>count_documents = (\<lambda>f sk l w. (Inr (matched f sk l (sn_docs w)), w)),
      find_opts = (\<lambda>f nct w.
        (Inr (sn_opened w),
         w\<lparr>sn_opened := Suc (sn_opened w), sn_pos := (sn_pos w)(sn_opened w := 0)\<rparr>)),
      cursor_next = (\<lambda>c w.
        let k = sn_pulls w; w1 = w\<lparr>sn_pulls := Suc k\<rparr>
        in if sn_faulty w k then (Inl CursorNotFound, w1)
           else let rs = results c (sn_docs w); p = sn_pos w (c_handle c)
                in if p < length rs
                   then (Inr (rs ! p), w1\<lparr>sn_pos := (sn_pos w)(c_handle c := Suc p)\<rparr>)
                   else (Inl StopIteration, w1)),
      cursor_close = (\<lambda>c w. (None, w))\<rparr>"

text \<open>
  What links an iterator to the fixed collection it runs on: the count it holds is the
  count of the query, and its cursor still has as many documents to deliver as the
  iterator has to emit.
\<close>

definition consistent ::
  "('d \<Rightarrow> bool) \<Rightarrow> int \<Rightarrow> int \<Rightarrow> 'd list \<Rightarrow> (nat \<Rightarrow> bool) \<Rightarrow>
   ('d \<Rightarrow> bool, 'd \<Rightarrow> int, 'd) pymongo_iterator \<Rightarrow>
   ('d snapshot, 'd \<Rightarrow> bool, 'd \<Rightarrow> int) env \<Rightarrow> bool" where
  "consistent f sk l docs faulty s e \<longleftrightarrow>
     self_total_docs s = matched f sk l docs \<and> self_limit s = l \<and> self_skip s = sk \<and>
     self_search_opts s = f \<and> sn_docs (world e) = docs \<and> sn_faulty (world e) = faulty \<and>
     0 \<le> self_i s \<and> self_i s \<le> self_total_docs s \<and>
     int (length (results (self_cursor s) docs))
       - int (sn_pos (world e) (c_handle (self_cursor s))) = self_total_docs s - self_i s"

text \<open>
  Three documents, all matched; \<open>lost_at k\<close> is the collection in which pull \<open>k\<close>, and
  no other, loses its cursor.
\<close>

definition match_all :: "int \<Rightarrow> bool" where
  "match_all d = True"

definition match_none :: "int \<Rightarrow> bool" where
  "match_none d = False"

definition only_pull :: "nat \<Rightarrow> nat \<Rightarrow> bool" where
  "only_pull k j = (j = k)"

definition lost_at :: "nat \<Rightarrow> (int snapshot, int \<Rightarrow> bool, int \<Rightarrow> int) env" where
  "lost_at k =
     \<lparr>calls = [],
      world = \<lparr>sn_docs = [10, 30, 40], sn_faulty = only_pull k, sn_pulls = 0, sn_opened = 0,
               sn_pos = (\<lambda>h. 0)\<rparr>\<rparr>"

text \<open>
  The iterator that \<open>init\<close> builds on the scripted collection for the query
  \<open>''all''\<close>, sorted by \<open>''natural''\<close>, with no skip, no limit and no progress
  messages, when the count query answers \<open>n\<close>; and the environment it leaves.
\<close>

definition fresh_iterator :: "int \<Rightarrow> (string, string, int) pymongo_iterator" where
  "fresh_iterator n =
     \<lparr>self_search_opts = ''all'', self_sort_opts = ''natural'', self_skip = 0,
      self_disp_progress = 0, self_limit = 2 ^ 31, self_i = 0, self_total_docs = n,
      self_cursor = limit_c (2 ^ 31) (skip_c 0 (sort_c ''natural'' (new_cursor 0 ''all'' True))),
      self_doc = None\<rparr>"

definition after_init ::
  "int \<Rightarrow> (exn + int) list \<Rightarrow> exn option \<Rightarrow> (int script, string, string) env" where
  "after_init n pulls cl =
     \<lparr>calls = [CountDocuments ''all'' 0 (2 ^ 31), Print (Iterating n), Find ''all'' True],
      world = \<lparr>sc_count = Inr n, sc_pulls = pulls, sc_close = cl, sc_opened = 1\<rparr>\<rparr>"

text \<open>
  The scenario of the spec: limit 100, skip 50, 40 documents emitted so far.
\<close>

definition emitted_40 :: "(string, string, int) pymongo_iterator" where
  "emitted_40 =
     \<lparr>self_search_opts = ''all'', self_sort_opts = ''natural'', self_skip = 50,
      self_disp_progress = 0, self_limit = 100, self_i = 40, self_total_docs = 100,
      self_cursor = limit_c 100 (skip_c 50 (sort_c ''natural'' (new_cursor 0 ''all'' True))),
      self_doc = Some 7\<rparr>"

section \<open>What one call of next does, for any collection\<close>

lemma c_handle_builders:
  "c_handle (limit_c l c) = c_handle c" "c_handle (skip_c k c) = c_handle c"
  "c_handle (sort_c so c) = c_handle c" "c_handle (new_cursor h f nct) = h"
  by (simp_all add: limit_c_def skip_c_def sort_c_def new_cursor_def)

lemma next_doc_pulls:
  assumes "self_i s < self_total_docs s"
    and "cursor_next coll (self_cursor s) (world e) = (Inr d, w1)"
  shows "\<exists>cs. next_doc coll s e =
           (Inr d, s\<lparr>self_i := self_i s + 1, self_doc := Some d\<rparr>, \<lparr>calls = cs, world = w1\<rparr>)"
  using assms by (simp add: next_doc_def do_call_def do_print_def Let_def)

lemma next_doc_reopens:
  assumes "self_i s < self_total_docs s"
    and "cursor_next coll (self_cursor s) (world e) = (Inl CursorNotFound, w1)"
    and "find_opts coll (self_search_opts s) True w1 = (Inr h, w2)"
    and "c = limit_c (if self_limit s \<noteq> 0 then self_limit s - self_i s else 0)
               (skip_c (self_i s + self_skip s) (new_cursor h (self_search_opts s) True))"
    and "cursor_next coll c w2 = (Inr d, w3)"
  shows "next_doc coll s e =
           (Inr d, s\<lparr>self_i := self_i s + 1, self_cursor := c\<rparr>,
            \<lparr>calls = calls e @ [Next (self_cursor s), Print LostCursor,
                                  Find (self_search_opts s) True, Next c],
             world = w3\<rparr>)"
  using assms by (simp add: next_doc_def reinitialize_def do_call_def do_print_def Let_def)

text \<open>Unrolling a fixed number of calls.\<close>

lemma advance_n_numeral:
  "advance_n coll (numeral k) s e =
     (case next_doc coll s e of
        (r, s1, e1) \<Rightarrow>
          (case advance_n coll (pred_numeral k) s1 e1 of
             (rs, s2, e2) \<Rightarrow> (r # rs, s2, e2)))"
  by (simp add: numeral_eq_Suc)

lemma advance_n_one:
  "advance_n coll 1 s e = (case next_doc coll s e of (r, s1, e1) \<Rightarrow> ([r], s1, e1))"
  by (simp split: prod.splits)

text \<open>No call of next changes the count, and none issues a count query.\<close>

lemma reinitialize_total_docs:
  "self_total_docs (fst (snd (reinitialize coll s e))) = self_total_docs s"
  by (simp add: reinitialize_def Let_def split: prod.splits sum.splits)

lemma next_doc_total_docs:
  "self_total_docs (fst (snd (next_doc coll s e))) = self_total_docs s"
  by (simp add: next_doc_def reinitialize_total_docs Let_def split: prod.splits sum.splits option.splits)

lemma advance_n_total_docs:
  "self_total_docs (fst (snd (advance_n coll n s e))) = self_total_docs s"
proof (induction n arbitrary: s e)
  case 0
  show ?case by simp
next
  case (Suc n)
  obtain r s1 e1 where n1: "next_doc coll s e = (r, s1, e1)"
    by (metis prod_cases3)
  obtain rs s2 e2 where a: "advance_n coll n s1 e1 = (rs, s2, e2)"
    by (metis prod_cases3)
  have "self_total_docs s1 = self_total_docs s"
    using next_doc_total_docs[of coll s e] n1 by simp
  moreover have "self_total_docs s2 = self_total_docs s1"
    using Suc.IH[of s1 e1] a by simp
  ultimately show ?case by (simp add: n1 a)
qed

lemma reinitialize_counts:
  "filter is_count (calls (snd (snd (reinitialize coll s e)))) = filter is_count (calls e)"
  by (simp add: reinitialize_def do_call_def Let_def split: prod.splits sum.splits)

lemma next_doc_counts:
  "filter is_count (calls (snd (snd (next_doc coll s e)))) = filter is_count (calls e)"
  by (simp add: next_doc_def reinitialize_counts do_call_def do_print_def Let_def
        split: prod.splits sum.splits option.splits)

lemma advance_n_counts:
  "filter is_count (calls (snd (snd (advance_n coll n s e)))) = filter is_count (calls e)"
proof (induction n arbitrary: s e)
  case 0
  show ?case by simp
next
  case (Suc n)
  obtain r s1 e1 where n1: "next_doc coll s e = (r, s1, e1)"
    by (metis prod_cases3)
  obtain rs s2 e2 where a: "advance_n coll n s1 e1 = (rs, s2, e2)"
    by (metis prod_cases3)
  have "filter is_count (calls e1) = filter is_count (calls e)"
    using next_doc_counts[of coll s e] n1 by simp
  moreover have "filter is_count (calls e2) = filter is_count (calls e1)"
    using Suc.IH[of s1 e1] a by simp
  ultimately show ?case by (simp add: n1 a)
qed

text \<open>The emitted count never passes the count taken at construction.\<close>

lemma reinitialize_i:
  "self_i s < self_total_docs s \<Longrightarrow>
   self_i s \<le> self_i (fst (snd (reinitialize coll s e)))
   \<and> self_i (fst (snd (reinitialize coll s e))) \<le> self_total_docs s"
  by (simp add: reinitialize_def Let_def split: prod.splits sum.splits)

lemma next_doc_i:
  "self_i s \<le> self_total_docs s \<Longrightarrow>
   self_i s \<le> self_i (fst (snd (next_doc coll s e)))
   \<and> self_i (fst (snd (next_doc coll s e))) \<le> self_total_docs s"
  using reinitialize_i[of s coll]
  by (simp add: next_doc_def Let_def split: prod.splits sum.splits option.splits)

lemma advance_n_i:
  "self_i s \<le> self_total_docs s \<Longrightarrow>
   self_i s \<le> self_i (fst (snd (advance_n coll n s e)))
   \<and> self_i (fst (snd (advance_n coll n s e))) \<le> self_total_docs s"
proof (induction n arbitrary: s e)
  case 0
  then show ?case by simp
next
  case (Suc n)
  obtain r s1 e1 where n1: "next_doc coll s e = (r, s1, e1)"
    by (metis prod_cases3)
  obtain rs s2 e2 where a: "advance_n coll n s1 e1 = (rs, s2, e2)"
    by (metis prod_cases3)
  have b1: "self_i s \<le> self_i s1 \<and> self_i s1 \<le> self_total_docs s"
    using next_doc_i[OF Suc.prems, of coll e] n1 by simp
  have t1: "self_total_docs s1 = self_total_docs s"
    using next_doc_total_docs[of coll s e] n1 by simp
  have "self_i s1 \<le> self_i s2 \<and> self_i s2 \<le> self_total_docs s1"
    using Suc.IH[of s1 e1] b1 t1 a by simp
  then show ?case using b1 t1 by (simp add: n1 a)
qed

text \<open>No call of next changes the query the iterator was built with.\<close>

lemma reinitialize_query:
  "self_sort_opts (fst (snd (reinitialize coll s e))) = self_sort_opts s
   \<and> self_limit (fst (snd (reinitialize coll s e))) = self_limit s
   \<and> self_skip (fst (snd (reinitialize coll s e))) = self_skip s
   \<and> self_search_opts (fst (snd (reinitialize coll s e))) = self_search_opts s"
  by (simp add: reinitialize_def Let_def split: prod.splits sum.splits)

lemma next_doc_query:
  "self_sort_opts (fst (snd (next_doc coll s e))) = self_sort_opts s
   \<and> self_limit (fst (snd (next_doc coll s e))) = self_limit s
   \<and> self_skip (fst (snd (next_doc coll s e))) = self_skip s
   \<and> self_search_opts (fst (snd (next_doc coll s e))) = self_search_opts s"
  by (simp add: next_doc_def reinitialize_query Let_def split: prod.splits sum.splits option.splits)

lemma advance_n_query:
  "self_sort_opts (fst (snd (advance_n coll n s e))) = self_sort_opts s
   \<and> self_limit (fst (snd (advance_n coll n s e))) = self_limit s
   \<and> self_skip (fst (snd (advance_n coll n s e))) = self_skip s
   \<and> self_search_opts (fst (snd (advance_n coll n s e))) = self_search_opts s"
proof (induction n arbitrary: s e)
  case 0
  show ?case by simp
next
  case (Suc n)
  obtain r s1 e1 where n1: "next_doc coll s e = (r, s1, e1)"
    by (metis prod_cases3)
  obtain rs s2 e2 where a: "advance_n coll n s1 e1 = (rs, s2, e2)"
    by (metis prod_cases3)
  have "self_sort_opts s1 = self_sort_opts s \<and> self_limit s1 = self_limit s
        \<and> self_skip s1 = self_skip s \<and> self_search_opts s1 = self_search_opts s"
    using next_doc_query[of coll s e] n1 by simp
  moreover have "self_sort_opts s2 = self_sort_opts s1 \<and> self_limit s2 = self_limit s1
        \<and> self_skip s2 = self_skip s1 \<and> self_search_opts s2 = self_search_opts s1"
    using Suc.IH[of s1 e1] a by simp
  ultimately show ?case by (simp add: n1 a)
qed

section \<open>The iteration over a collection that does not change\<close>

lemma length_results_first:
  "0 < l \<Longrightarrow> int (length (results (limit_c l (skip_c sk (sort_c so (new_cursor h f True)))) docs)) = matched f sk l docs"
  by (simp add: results_def limit_c_def skip_c_def sort_c_def new_cursor_def apply_limit_def apply_sort_def matched_def)

lemma length_apply_limit: "0 < l \<Longrightarrow> length (apply_limit l xs) = min (nat l) (length xs)"
  by (simp add: apply_limit_def)

lemma matched_pos: "0 < l \<Longrightarrow> matched f sk l docs = int (min (nat l) (length (filter f docs) - nat sk))"
  by (simp add: matched_def length_apply_limit)

lemma length_results_replacement:
  assumes "0 \<le> sk" "0 \<le> i" "i < matched f sk l docs" "0 < l"
  shows "int (length (results (limit_c (l - i) (skip_c (i + sk) (new_cursor h f True))) docs)) = matched f sk l docs - i"
proof -
  define a b k n where "a = nat l" and "b = nat i" and "k = nat sk" and "n = length (filter f docs)"
  have l: "l = int a" and i: "i = int b" and sk: "sk = int k"
    using assms by (simp_all add: a_def b_def k_def)
  have m: "matched f sk l docs = int (min a (n - k))"
    using assms(4) by (simp add: matched_pos a_def k_def n_def)
  have b: "b < min a (n - k)" using assms(3) m i by simp
  then have "b < a" by simp
  then have li: "0 < l - i" "nat (l - i) = a - b" using l i by simp_all
  have sk': "nat (i + sk) = b + k" using i sk by simp
  have "length (results (limit_c (l - i) (skip_c (i + sk) (new_cursor h f True))) docs)
        = min (a - b) (n - (b + k))"
    using li(1) by (simp add: results_def limit_c_def skip_c_def new_cursor_def apply_sort_def length_apply_limit li(2) sk' n_def)
  moreover have "int (min (a - b) (n - (b + k))) = int (min a (n - k)) - int b"
    using b by arith
  ultimately show ?thesis using m i by simp
qed

lemma snapshot_count:
  "count_documents snapshot_db f sk l w = (Inr (matched f sk l (sn_docs w)), w)"
  by (simp add: snapshot_db_def)

lemma snapshot_find:
  "find_opts snapshot_db f nct w =
     (Inr (sn_opened w), w\<lparr>sn_opened := Suc (sn_opened w), sn_pos := (sn_pos w)(sn_opened w := 0)\<rparr>)"
  by (simp add: snapshot_db_def)

lemma snapshot_close: "cursor_close snapshot_db c w = (None, w)"
  by (simp add: snapshot_db_def)

lemma snapshot_next_faulty:
  "sn_faulty w (sn_pulls w) \<Longrightarrow>
   cursor_next snapshot_db c w = (Inl CursorNotFound, w\<lparr>sn_pulls := Suc (sn_pulls w)\<rparr>)"
  by (simp add: snapshot_db_def)

lemma snapshot_next_doc:
  "\<not> sn_faulty w (sn_pulls w) \<Longrightarrow> sn_pos w (c_handle c) < length (results c (sn_docs w)) \<Longrightarrow>
   cursor_next snapshot_db c w =
     (Inr (results c (sn_docs w) ! sn_pos w (c_handle c)),
      w\<lparr>sn_pulls := Suc (sn_pulls w), sn_pos := (sn_pos w)(c_handle c := Suc (sn_pos w (c_handle c)))\<rparr>)"
  by (simp add: snapshot_db_def Let_def)

lemma init_consistent:
  assumes "0 \<le> sk" "0 \<le> limit" "l = (if limit = 0 then 2 ^ 31 else limit)"
  shows "\<exists>s0 e0. init snapshot_db f so sk limit dp e = (Inr s0, e0) \<and> consistent f sk l (sn_docs (world e)) (sn_faulty (world e)) s0 e0 \<and> self_i s0 = 0"
proof -
  have l: "0 < l" using assms by auto
  show ?thesis
    using l length_results_first[OF l, of sk so "sn_opened (world e)" f "sn_docs (world e)"] matched_pos[OF l, of f sk "sn_docs (world e)"]
    by (simp add: init_def snapshot_count snapshot_find assms(3)[symmetric] do_call_def do_print_def Let_def consistent_def c_handle_builders)
qed

lemma next_doc_exhausted_snapshot:
  assumes "consistent f sk l docs faulty s e" "self_i s = self_total_docs s"
  shows "next_doc snapshot_db s e = (Inl StopIteration, s, do_call (Close (self_cursor s)) (world e) e)"
    and "consistent f sk l docs faulty s (do_call (Close (self_cursor s)) (world e) e)"
  using assms by (simp_all add: next_doc_def snapshot_close consistent_def do_call_def)

lemma next_doc_step_plain:
  assumes c: "consistent f sk l docs faulty s e" and lt: "self_i s < self_total_docs s"
    and nf: "\<not> faulty (sn_pulls (world e))"
  shows "\<exists>d s' e'. next_doc snapshot_db s e = (Inr d, s', e') \<and> consistent f sk l docs faulty s' e'
           \<and> self_i s' = self_i s + 1"
proof -
  let ?c = "self_cursor s" and ?w = "world e"
  let ?p = "sn_pos ?w (c_handle ?c)"
  let ?w1 = "?w\<lparr>sn_pulls := Suc (sn_pulls ?w), sn_pos := (sn_pos ?w)(c_handle ?c := Suc ?p)\<rparr>"
  let ?s1 = "s\<lparr>self_i := self_i s + 1, self_doc := Some (results ?c (sn_docs ?w) ! ?p)\<rparr>"
  have p: "?p < length (results ?c (sn_docs ?w))"
    using c lt by (simp add: consistent_def)
  have nf': "\<not> sn_faulty ?w (sn_pulls ?w)" using c nf by (simp add: consistent_def)
  obtain cs where n: "next_doc snapshot_db s e = (Inr (results ?c (sn_docs ?w) ! ?p), ?s1, \<lparr>calls = cs, world = ?w1\<rparr>)"
    using next_doc_pulls[OF lt snapshot_next_doc[OF nf' p]] by blast
  have "consistent f sk l docs faulty ?s1 \<lparr>calls = cs, world = ?w1\<rparr>"
    using c lt by (simp add: consistent_def)
  then show ?thesis using n by simp
qed

lemma next_doc_step_reopen:
  assumes c: "consistent f sk l docs faulty s e" and lt: "self_i s < self_total_docs s"
    and fl: "faulty (sn_pulls (world e))" and nf: "\<not> faulty (Suc (sn_pulls (world e)))"
    and sk: "0 \<le> sk" and l: "0 < l"
  shows "\<exists>d s' e'. next_doc snapshot_db s e = (Inr d, s', e') \<and> consistent f sk l docs faulty s' e'
           \<and> self_i s' = self_i s + 1"
proof -
  let ?c = "self_cursor s" and ?w = "world e"
  let ?w1 = "?w\<lparr>sn_pulls := Suc (sn_pulls ?w)\<rparr>"
  let ?h = "sn_opened ?w"
  let ?w2 = "?w\<lparr>sn_pulls := Suc (sn_pulls ?w), sn_opened := Suc ?h, sn_pos := (sn_pos ?w)(?h := 0)\<rparr>"
  let ?c' = "limit_c (l - self_i s) (skip_c (self_i s + sk) (new_cursor ?h f True)) :: ('a \<Rightarrow> bool, 'a \<Rightarrow> int) cursor"
  let ?w3 = "?w\<lparr>sn_pulls := Suc (Suc (sn_pulls ?w)), sn_opened := Suc ?h, sn_pos := (sn_pos ?w)(?h := Suc 0)\<rparr>"
  let ?d = "results ?c' docs ! 0"
  let ?s1 = "s\<lparr>self_i := self_i s + 1, self_cursor := ?c'\<rparr>"
  have fl': "sn_faulty ?w (sn_pulls ?w)" using c fl by (simp add: consistent_def)
  have i0: "0 \<le> self_i s" and im: "self_i s < matched f sk l docs" and dw: "sn_docs ?w = docs"
    and sl: "self_limit s = l" and ss: "self_skip s = sk" and sf: "self_search_opts s = f"
    using c lt by (simp_all add: consistent_def)
  have len: "int (length (results ?c' docs)) = matched f sk l docs - self_i s"
    using sk i0 im l by (rule length_results_replacement)
  have nf2: "\<not> sn_faulty ?w2 (sn_pulls ?w2)" using c nf by (simp add: consistent_def)
  have "0 < int (length (results ?c' docs))" using len im by linarith
  then have p2: "sn_pos ?w2 (c_handle ?c') < length (results ?c' (sn_docs ?w2))"
    using dw by (simp add: c_handle_builders)
  have n1: "cursor_next snapshot_db ?c ?w = (Inl CursorNotFound, ?w1)"
    using fl' by (rule snapshot_next_faulty)
  have f1: "find_opts snapshot_db (self_search_opts s) True ?w1 = (Inr ?h, ?w2)"
    by (simp add: snapshot_find)
  have c': "?c' = limit_c (if self_limit s \<noteq> 0 then self_limit s - self_i s else 0)
               (skip_c (self_i s + self_skip s) (new_cursor ?h (self_search_opts s) True))"
    using l by (simp add: sl ss sf)
  have n2: "cursor_next snapshot_db ?c' ?w2 = (Inr ?d, ?w3)"
    using snapshot_next_doc[OF nf2 p2] dw by (simp add: c_handle_builders)
  note n = next_doc_reopens[OF lt n1 f1 c' n2]
  have "consistent f sk l docs faulty ?s1
          \<lparr>calls = calls e @ [Next ?c, Print LostCursor, Find (self_search_opts s) True, Next ?c'], world = ?w3\<rparr>"
    using c lt len by (simp add: consistent_def c_handle_builders)
  then show ?thesis using n by simp
qed

lemma next_doc_step:
  assumes c: "consistent f sk l docs faulty s e" and lt: "self_i s < self_total_docs s"
    and ndf: "\<forall>k. faulty k \<longrightarrow> \<not> faulty (Suc k)"
    and sk: "0 \<le> sk" and l: "0 < l"
  shows "\<exists>d s' e'. next_doc snapshot_db s e = (Inr d, s', e') \<and> consistent f sk l docs faulty s' e'
           \<and> self_i s' = self_i s + 1"
proof (cases "faulty (sn_pulls (world e))")
  case True
  then have "\<not> faulty (Suc (sn_pulls (world e)))" using ndf by blast
  then show ?thesis using next_doc_step_reopen[OF c lt True _ sk l] by blast
next
  case False
  then show ?thesis using next_doc_step_plain[OF c lt] by blast
qed

lemma advance_n_snapshot:
  assumes ndf: "\<forall>k. faulty k \<longrightarrow> \<not> faulty (Suc k)" and sk: "0 \<le> sk" and l: "0 < l"
  shows "consistent f sk l docs faulty s e \<Longrightarrow>
         \<exists>ds s' e'. advance_n snapshot_db n s e =
                      (map Inr ds @ replicate (n - length ds) (Inl StopIteration), s', e')
            \<and> consistent f sk l docs faulty s' e'
            \<and> int (length ds) = min (int n) (self_total_docs s - self_i s)
            \<and> self_i s' = self_i s + int (length ds)
            \<and> self_total_docs s' = self_total_docs s"
proof (induction n arbitrary: s e)
  case 0
  then show ?case by (simp add: consistent_def)
next
  case (Suc n)
  note c = Suc.prems
  have le: "self_i s \<le> self_total_docs s" using c by (simp add: consistent_def)
  show ?case
  proof (cases "self_i s < self_total_docs s")
    case True
    obtain d s1 e1 where n1: "next_doc snapshot_db s e = (Inr d, s1, e1)"
      and c1: "consistent f sk l docs faulty s1 e1" and i1: "self_i s1 = self_i s + 1"
      using next_doc_step[OF c True ndf sk l] by blast
    have t1: "self_total_docs s1 = self_total_docs s" using c c1 by (simp add: consistent_def)
    obtain ds s' e' where a: "advance_n snapshot_db n s1 e1 =
                      (map Inr ds @ replicate (n - length ds) (Inl StopIteration), s', e')"
      and c': "consistent f sk l docs faulty s' e'"
      and len: "int (length ds) = min (int n) (self_total_docs s1 - self_i s1)"
      and i': "self_i s' = self_i s1 + int (length ds)"
      and t': "self_total_docs s' = self_total_docs s1"
      using Suc.IH[OF c1] by blast
    have "advance_n snapshot_db (Suc n) s e =
            (map Inr (d # ds) @ replicate (Suc n - length (d # ds)) (Inl StopIteration), s', e')"
      by (simp add: n1 a)
    moreover have "int (length (d # ds)) = min (int (Suc n)) (self_total_docs s - self_i s)"
      using len i1 t1 True by simp
    moreover have "self_i s' = self_i s + int (length (d # ds))" using i' i1 by simp
    ultimately show ?thesis using c' t' t1 by metis
  next
    case False
    then have eq: "self_i s = self_total_docs s" using le by simp
    let ?e1 = "do_call (Close (self_cursor s)) (world e) e"
    have n1: "next_doc snapshot_db s e = (Inl StopIteration, s, ?e1)"
      and c1: "consistent f sk l docs faulty s ?e1"
      using next_doc_exhausted_snapshot[OF c eq] by simp_all
    obtain ds s' e' where a: "advance_n snapshot_db n s ?e1 =
                      (map Inr ds @ replicate (n - length ds) (Inl StopIteration), s', e')"
      and c': "consistent f sk l docs faulty s' e'"
      and len: "int (length ds) = min (int n) (self_total_docs s - self_i s)"
      and i': "self_i s' = self_i s + int (length ds)"
      and t': "self_total_docs s' = self_total_docs s"
      using Suc.IH[OF c1] by blast
    have ds: "ds = []" using len eq by simp
    have "advance_n snapshot_db (Suc n) s e =
            (map Inr [] @ replicate (Suc n - length ([] :: 'a list)) (Inl StopIteration), s', e')"
      using n1 a ds by simp
    moreover have "int (length ([] :: 'a list)) = min (int (Suc n)) (self_total_docs s - self_i s)"
      using eq by simp
    ultimately show ?thesis using c' i' t' ds by (metis list.size(3))
  qed
qed

lemma next_doc_signals_end_snapshot:
  assumes c: "consistent f sk l docs faulty s e"
    and ndf: "\<forall>k. faulty k \<longrightarrow> \<not> faulty (Suc k)" and sk: "0 \<le> sk" and l: "0 < l"
  shows "(fst (next_doc snapshot_db s e) = Inl StopIteration) = (self_i s = self_total_docs s)"
proof (cases "self_i s < self_total_docs s")
  case True
  then show ?thesis using next_doc_step[OF c True ndf sk l] by auto
next
  case False
  then have "self_i s = self_total_docs s" using c by (simp add: consistent_def)
  then show ?thesis using next_doc_exhausted_snapshot(1)[OF c] by simp
qed

section \<open>The claims\<close>

lemma scripted_simps:
  "count_documents scripted f sk l w = (sc_count w, w)"
  "find_opts scripted f nct w = (Inr (sc_opened w), w\<lparr>sc_opened := Suc (sc_opened w)\<rparr>)"
  "cursor_next scripted c w =
     (case sc_pulls w of [] \<Rightarrow> (Inl StopIteration, w) | r # rs \<Rightarrow> (r, w\<lparr>sc_pulls := rs\<rparr>))"
  "cursor_close scripted c w = (sc_close w, w)"
  by (simp_all add: scripted_def)

lemma init_scripted:
  "init scripted ''all'' ''natural'' 0 0 0 (script_env (Inr n) pulls cl)
     = (Inr (fresh_iterator n), after_init n pulls cl)"
  by (simp add: init_def scripted_simps script_env_def fresh_iterator_def after_init_def
        do_call_def do_print_def)

lemma init_facts:
  assumes "init coll f so sk limit dp e = (Inr s0, e0)"
  shows "self_i s0 = 0" and "self_limit s0 = (if limit = 0 then 2 ^ 31 else limit)"
    and "self_sort_opts s0 = so" and "c_sort (self_cursor s0) = Some so"
    and "self_skip s0 = sk" and "self_search_opts s0 = f"
  using assms
  by (auto simp add: init_def Let_def sort_c_def skip_c_def limit_c_def new_cursor_def
        split: prod.splits sum.splits)

lemma init_count:
  assumes "init coll f so sk limit dp e = (Inr s0, e0)"
    and "count_documents coll f sk (if limit = 0 then 2 ^ 31 else limit) (world e) = (Inr n, w)"
  shows "self_total_docs s0 = n"
    and "calls e0 = calls e @ [CountDocuments f sk (if limit = 0 then 2 ^ 31 else limit),
                               Print (Iterating n), Find f True]"
  using assms
  by (auto simp add: init_def Let_def do_call_def do_print_def split: prod.splits sum.splits)

text \<open>
  The iteration over a collection that does not change, from construction on: the
  count query, \<^verbatim>\<open>find\<close> and \<^verbatim>\<open>close\<close> of \<open>snapshot_db\<close> always return, and a pull fails
  only when the schedule says that it loses its cursor.
\<close>

lemma snapshot_iteration:
  assumes "0 \<le> skip" and "0 \<le> limit"
    and "\<forall>k. sn_faulty w k \<longrightarrow> \<not> sn_faulty w (Suc k)"
  shows "\<exists>s0 e0.
           init snapshot_db f so skip limit dp \<lparr>calls = cs, world = w\<rparr> = (Inr s0, e0)
           \<and> self_total_docs s0 = matched f skip (if limit = 0 then 2 ^ 31 else limit) (sn_docs w)
           \<and> (\<forall>n. \<exists>ds s e.
                  advance_n snapshot_db n s0 e0 =
                    (map Inr ds @ replicate (n - length ds) (Inl StopIteration), s, e)
                  \<and> int (length ds) = min (int n) (self_total_docs s0)
                  \<and> self_i s = int (length ds)
                  \<and> 0 \<le> self_i s \<and> self_i s \<le> self_total_docs s0
                  \<and> (fst (next_doc snapshot_db s e) = Inl StopIteration)
                      = (self_i s = self_total_docs s0))"
proof -
  let ?l = "if limit = 0 then 2 ^ 31 else limit"
  have l: "0 < ?l" using assms(2) by auto
  obtain s0 e0 where i: "init snapshot_db f so skip limit dp \<lparr>calls = cs, world = w\<rparr> = (Inr s0, e0)"
    and c: "consistent f skip ?l (sn_docs w) (sn_faulty w) s0 e0" and z: "self_i s0 = 0"
    using init_consistent[OF assms(1,2) refl, of f so dp "\<lparr>calls = cs, world = w\<rparr>"] by auto
  have t: "self_total_docs s0 = matched f skip ?l (sn_docs w)" using c by (simp add: consistent_def)
  have "\<exists>ds s e. advance_n snapshot_db n s0 e0 =
                    (map Inr ds @ replicate (n - length ds) (Inl StopIteration), s, e)
                  \<and> int (length ds) = min (int n) (self_total_docs s0)
                  \<and> self_i s = int (length ds)
                  \<and> 0 \<le> self_i s \<and> self_i s \<le> self_total_docs s0
                  \<and> (fst (next_doc snapshot_db s e) = Inl StopIteration)
                      = (self_i s = self_total_docs s0)" for n
  proof -
    obtain ds s e where a: "advance_n snapshot_db n s0 e0 =
                      (map Inr ds @ replicate (n - length ds) (Inl StopIteration), s, e)"
      and c': "consistent f skip ?l (sn_docs w) (sn_faulty w) s e"
      and len: "int (length ds) = min (int n) (self_total_docs s0 - self_i s0)"
      and i': "self_i s = self_i s0 + int (length ds)"
      and t': "self_total_docs s = self_total_docs s0"
      using advance_n_snapshot[OF assms(3,1) l c, of n] by blast
    have "(fst (next_doc snapshot_db s e) = Inl StopIteration) = (self_i s = self_total_docs s0)"
      using next_doc_signals_end_snapshot[OF c' assms(3,1) l] t' by simp
    moreover have "self_i s \<le> self_total_docs s0" using i' len z by simp
    ultimately show ?thesis using a len i' z by auto
  qed
  then show ?thesis using i t by blast
qed

subsection \<open>C1\<close>

text \<open>
  C1, as amended, in two parts.

  For every collection: when the count query answers \<open>n \<ge> 0\<close> and construction returns
  an iterator, its \<open>total_docs\<close> is \<open>n\<close>, and after any number of calls of next, whatever
  they return or raise, \<open>total_docs\<close> is still \<open>n\<close> and \<open>0 \<le> i \<le> total_docs\<close>.

  On a collection that does not change during the iteration, whose count query,
  \<^verbatim>\<open>find\<close> and \<^verbatim>\<open>close\<close> return and whose pulls fail only by losing their cursor, never
  two pulls in a row: for every filter, sort order, skip \<open>\<ge> 0\<close> and limit \<open>\<ge> 0\<close>,
  construction succeeds; \<open>n\<close> calls of next give \<open>min n total_docs\<close> documents followed
  by end-of-sequence signals only, so exactly \<open>total_docs\<close> documents are yielded and
  then the sequence ends; and after any number of calls the next call signals the end
  exactly when \<open>i = total_docs\<close>.
\<close>

theorem iteration_yields_total_docs:
  "(count_documents coll f sk0 (if lim0 = 0 then 2 ^ 31 else lim0) (world e) = (Inr n, w1)
      \<and> 0 \<le> n \<and> init coll f so sk0 lim0 dp e = (Inr s0, e0)
    \<longrightarrow> self_total_docs s0 = n
        \<and> (\<forall>k. self_total_docs (fst (snd (advance_n coll k s0 e0))) = n
               \<and> 0 \<le> self_i (fst (snd (advance_n coll k s0 e0)))
               \<and> self_i (fst (snd (advance_n coll k s0 e0))) \<le> n))
   \<and> (0 \<le> skip \<and> 0 \<le> limit \<and> (\<forall>k. sn_faulty w k \<longrightarrow> \<not> sn_faulty w (Suc k))
    \<longrightarrow> (\<exists>t0 u0.
           init snapshot_db g sg skip limit dq \<lparr>calls = cs, world = w\<rparr> = (Inr t0, u0)
           \<and> self_total_docs t0 = matched g skip (if limit = 0 then 2 ^ 31 else limit) (sn_docs w)
           \<and> (\<forall>m. \<exists>ds t u.
                  advance_n snapshot_db m t0 u0 =
                    (map Inr ds @ replicate (m - length ds) (Inl StopIteration), t, u)
                  \<and> int (length ds) = min (int m) (self_total_docs t0)
                  \<and> self_i t = int (length ds)
                  \<and> 0 \<le> self_i t \<and> self_i t \<le> self_total_docs t0
                  \<and> (fst (next_doc snapshot_db t u) = Inl StopIteration)
                      = (self_i t = self_total_docs t0))))"
proof (rule conjI; rule impI)
  assume a: "count_documents coll f sk0 (if lim0 = 0 then 2 ^ 31 else lim0) (world e) = (Inr n, w1)
      \<and> 0 \<le> n \<and> init coll f so sk0 lim0 dp e = (Inr s0, e0)"
  then have c: "count_documents coll f sk0 (if lim0 = 0 then 2 ^ 31 else lim0) (world e) = (Inr n, w1)"
    and n: "0 \<le> n" and i: "init coll f so sk0 lim0 dp e = (Inr s0, e0)"
    by blast+
  have t: "self_total_docs s0 = n" using init_count(1)[OF i c] .
  have z: "self_i s0 = 0" using init_facts(1)[OF i] .
  have le: "self_i s0 \<le> self_total_docs s0" using t z n by simp
  have "self_total_docs (fst (snd (advance_n coll k s0 e0))) = n
         \<and> 0 \<le> self_i (fst (snd (advance_n coll k s0 e0)))
         \<and> self_i (fst (snd (advance_n coll k s0 e0))) \<le> n" for k
    using advance_n_i[OF le, of coll k e0] advance_n_total_docs[of coll k s0 e0] t z by simp
  then show "self_total_docs s0 = n
        \<and> (\<forall>k. self_total_docs (fst (snd (advance_n coll k s0 e0))) = n
               \<and> 0 \<le> self_i (fst (snd (advance_n coll k s0 e0)))
               \<and> self_i (fst (snd (advance_n coll k s0 e0))) \<le> n)"
    using t by blast
next
  assume b: "0 \<le> skip \<and> 0 \<le> limit \<and> (\<forall>k. sn_faulty w k \<longrightarrow> \<not> sn_faulty w (Suc k))"
  then have h: "0 \<le> skip" "0 \<le> limit" "\<forall>k. sn_faulty w k \<longrightarrow> \<not> sn_faulty w (Suc k)"
    by blast+
  show "\<exists>t0 u0.
           init snapshot_db g sg skip limit dq \<lparr>calls = cs, world = w\<rparr> = (Inr t0, u0)
           \<and> self_total_docs t0 = matched g skip (if limit = 0 then 2 ^ 31 else limit) (sn_docs w)
           \<and> (\<forall>m. \<exists>ds t u.
                  advance_n snapshot_db m t0 u0 =
                    (map Inr ds @ replicate (m - length ds) (Inl StopIteration), t, u)
                  \<and> int (length ds) = min (int m) (self_total_docs t0)
                  \<and> self_i t = int (length ds)
                  \<and> 0 \<le> self_i t \<and> self_i t \<le> self_total_docs t0
                  \<and> (fst (next_doc snapshot_db t u) = Inl StopIteration)
                      = (self_i t = self_total_docs t0))"
    using snapshot_iteration[OF h] .
qed

text \<open>
  The first part where the count query answers 2 and the cursor holds one document:
  after two calls of next \<open>total_docs = 2\<close> and \<open>0 \<le> i \<le> 2\<close>. The second part at three
  documents, sorted descending, where the second pull loses its cursor: the count is 3,
  and four calls of next give three documents and then the end.
\<close>

theorem iteration_yields_total_docs_witness:
  "(self_total_docs (fresh_iterator 2) = 2
    \<and> self_total_docs (fst (snd (advance_n scripted 2 (fresh_iterator 2) (after_init 2 [Inr 7] None)))) = 2
    \<and> 0 \<le> self_i (fst (snd (advance_n scripted 2 (fresh_iterator 2) (after_init 2 [Inr 7] None))))
    \<and> self_i (fst (snd (advance_n scripted 2 (fresh_iterator 2) (after_init 2 [Inr 7] None)))) \<le> 2)
   \<and> (\<exists>s0 e0. init snapshot_db match_all uminus 0 0 0 (lost_at 1) = (Inr s0, e0)
        \<and> self_total_docs s0 = 3
        \<and> (\<exists>ds s e. advance_n snapshot_db 4 s0 e0 = (map Inr ds @ [Inl StopIteration], s, e)
              \<and> length ds = 3 \<and> self_i s = 3))"
proof -
  have c: "count_documents scripted ''all'' 0 (if (0::int) = 0 then 2 ^ 31 else 0)
             (world (script_env (Inr 2) [Inr 7] None))
           = (Inr 2, world (script_env (Inr 2) [Inr 7] None))"
    by (simp add: scripted_simps script_env_def)
  have n2: "(0::int) \<le> 2" by simp
  note g = iteration_yields_total_docs[THEN conjunct1, rule_format,
             OF conjI[OF c conjI[OF n2 init_scripted]]]
  have part1: "self_total_docs (fresh_iterator 2) = 2
    \<and> self_total_docs (fst (snd (advance_n scripted 2 (fresh_iterator 2) (after_init 2 [Inr 7] None)))) = 2
    \<and> 0 \<le> self_i (fst (snd (advance_n scripted 2 (fresh_iterator 2) (after_init 2 [Inr 7] None))))
    \<and> self_i (fst (snd (advance_n scripted 2 (fresh_iterator 2) (after_init 2 [Inr 7] None)))) \<le> 2"
    using g by blast
  have h0: "(0::int) \<le> 0" by simp
  have h1: "\<forall>k. sn_faulty (world (lost_at 1)) k \<longrightarrow> \<not> sn_faulty (world (lost_at 1)) (Suc k)"
    by (simp add: lost_at_def only_pull_def)
  have e: "\<lparr>calls = [], world = world (lost_at 1)\<rparr> = lost_at 1"
    by (simp add: lost_at_def)
  have m: "matched match_all 0 (2 ^ 31) (sn_docs (world (lost_at 1))) = 3"
    by (simp add: matched_def apply_limit_def lost_at_def match_all_def)
  obtain s0 e0 where i: "init snapshot_db match_all uminus 0 0 0 (lost_at 1) = (Inr s0, e0)"
    and t: "self_total_docs s0 = 3"
    and a: "\<forall>n. \<exists>ds s e.
                  advance_n snapshot_db n s0 e0 =
                    (map Inr ds @ replicate (n - length ds) (Inl StopIteration), s, e)
                  \<and> int (length ds) = min (int n) (self_total_docs s0)
                  \<and> self_i s = int (length ds)
                  \<and> 0 \<le> self_i s \<and> self_i s \<le> self_total_docs s0
                  \<and> (fst (next_doc snapshot_db s e) = Inl StopIteration)
                      = (self_i s = self_total_docs s0)"
    using iteration_yields_total_docs[THEN conjunct2, rule_format,
            OF conjI[OF h0 conjI[OF h0 h1]], of match_all uminus 0 "[]"] e m
    by auto
  obtain ds s e' where a4: "advance_n snapshot_db 4 s0 e0 =
                    (map Inr ds @ replicate (4 - length ds) (Inl StopIteration), s, e')"
    and l4: "int (length ds) = min (int 4) (self_total_docs s0)" and i4: "self_i s = int (length ds)"
    using a by blast
  have "length ds = 3" using l4 t by simp
  then have "advance_n snapshot_db 4 s0 e0 = (map Inr ds @ [Inl StopIteration], s, e')
       \<and> length ds = 3 \<and> self_i s = 3"
    using a4 i4 by simp
  then show ?thesis using part1 i t by blast
qed

text \<open>
  C1 as stated fails when the cursor has fewer documents than were counted. The count
  query answers 2 and the cursor holds one document: after one call of next \<open>i = 1\<close> and
  \<open>total_docs = 2\<close>, and the second call signals the end of the sequence. One document is
  yielded, not two, and the end is signalled while \<open>i \<noteq> total_docs\<close>.
\<close>

theorem early_end_counterexample:
  "map_sum id (self_i \<circ> fst \<circ> snd)
     (iterate_n scripted ''all'' ''natural'' 0 0 0 1 (script_env (Inr 2) [Inr 7] None)) = Inr 1
   \<and> map_sum id (self_total_docs \<circ> fst \<circ> snd)
     (iterate_n scripted ''all'' ''natural'' 0 0 0 1 (script_env (Inr 2) [Inr 7] None)) = Inr 2
   \<and> map_sum id fst
     (iterate_n scripted ''all'' ''natural'' 0 0 0 2 (script_env (Inr 2) [Inr 7] None))
       = Inr [Inr 7, Inl StopIteration]"
  by (simp add: iterate_n_def init_scripted advance_n_numeral next_doc_def fresh_iterator_def
        after_init_def scripted_simps do_call_def do_print_def)

subsection \<open>C2\<close>

text \<open>
  C2. When \<^verbatim>\<open>__reinitialize\<close> runs with \<open>i\<close> documents emitted and \<^verbatim>\<open>find\<close> returns, the
  cursor it stores and pulls from has skip \<open>self.skip + i\<close> and limit \<open>self.limit - i\<close>
  when \<open>self.limit\<close> is not 0, and limit 0 otherwise.
\<close>

theorem reinitialize_skip_limit:
  assumes "find_opts coll (self_search_opts s) True (world e) = (Inr h, w)"
  shows "c_skip (self_cursor (fst (snd (reinitialize coll s e)))) = self_skip s + self_i s
         \<and> c_limit (self_cursor (fst (snd (reinitialize coll s e))))
             = (if self_limit s \<noteq> 0 then self_limit s - self_i s else 0)
         \<and> c_handle (self_cursor (fst (snd (reinitialize coll s e)))) = h
         \<and> last (calls (snd (snd (reinitialize coll s e))))
             = Next (self_cursor (fst (snd (reinitialize coll s e))))"
  using assms
  by (simp add: reinitialize_def Let_def do_call_def limit_c_def skip_c_def new_cursor_def
        split: prod.splits sum.splits)

text \<open>With limit 100, skip 50 and 40 documents emitted, the new limit is 60 and the new skip 90.\<close>

theorem reinitialize_skip_limit_witness:
  "c_skip (self_cursor (fst (snd (reinitialize scripted emitted_40 (script_env (Inr 100) [Inr 8] None))))) = 90
   \<and> c_limit (self_cursor (fst (snd (reinitialize scripted emitted_40 (script_env (Inr 100) [Inr 8] None))))) = 60"
  using reinitialize_skip_limit[of scripted emitted_40 "script_env (Inr 100) [Inr 8] None" 0
          "\<lparr>sc_count = Inr 100, sc_pulls = [Inr 8], sc_close = None, sc_opened = Suc 0\<rparr>"]
  by (simp add: scripted_simps script_env_def emitted_40_def)

subsection \<open>C3\<close>

text \<open>
  C3. Three documents 10, 30, 40 are iterated in descending order and the second pull
  loses its cursor. \<^verbatim>\<open>__reinitialize\<close> opens the new cursor without the sort, at skip 1 of
  the natural order: the iteration delivers 40, 30, 40, so 40 comes twice and 10 never,
  where the iteration that loses no cursor delivers 40, 30, 10.
\<close>

theorem reopened_cursor_repeats_document:
  "map_sum id fst (iterate_n snapshot_db match_all uminus 0 0 0 4 (lost_at 1))
     = Inr [Inr 40, Inr 30, Inr 40, Inl StopIteration]
   \<and> map_sum id fst (iterate_n snapshot_db match_all uminus 0 0 0 4 (lost_at 9))
     = Inr [Inr 40, Inr 30, Inr 10, Inl StopIteration]"
  by (simp add: iterate_n_def init_def next_doc_def reinitialize_def snapshot_db_def
        lost_at_def only_pull_def match_all_def matched_def results_def apply_limit_def
        apply_sort_def limit_c_def skip_c_def sort_c_def new_cursor_def do_call_def
        do_print_def advance_n_numeral Let_def)

subsection \<open>C4\<close>

text \<open>
  C4, as amended. When the count query and \<^verbatim>\<open>find\<close> return, construction issues the
  count query first, with the filter, the skip and the normalized limit, and keeps its
  answer as \<open>total_docs\<close>; the normalized limit is the limit given, except that 0 becomes
  \<open>2 ^ 31 = 2147483648\<close>, which is one more than the largest 32-bit signed integer.
\<close>

theorem init_normalizes_limit:
  assumes "count_documents coll f sk (if limit = 0 then 2 ^ 31 else limit) (world e) = (Inr n, w1)"
    and "find_opts coll f True w1 = (Inr h, w2)"
  shows "\<exists>s0. init coll f so sk limit dp e =
                 (Inr s0, \<lparr>calls = calls e @ [CountDocuments f sk (if limit = 0 then 2 ^ 31 else limit),
                                                Print (Iterating n), Find f True],
                           world = w2\<rparr>)
              \<and> self_total_docs s0 = n
              \<and> self_limit s0 = (if limit = 0 then 2147483648 else limit)
              \<and> \<not> fits_int32 2147483648 \<and> fits_int32 (2147483648 - 1)"
  using assms by (simp add: init_def do_call_def do_print_def fits_int32_def)

theorem init_normalizes_limit_witness:
  "\<exists>s0. init scripted ''all'' ''natural'' 0 0 0 (script_env (Inr 5) [] None) =
           (Inr s0, after_init 5 [] None)
        \<and> self_total_docs s0 = 5 \<and> self_limit s0 = 2147483648"
  using init_normalizes_limit[of scripted "''all''" 0 0 "script_env (Inr 5) [] None" 5
          "\<lparr>sc_count = Inr 5, sc_pulls = [], sc_close = None, sc_opened = 0\<rparr>" 0
          "\<lparr>sc_count = Inr 5, sc_pulls = [], sc_close = None, sc_opened = 1\<rparr>" "''natural''" 0]
  by (auto simp add: scripted_simps script_env_def after_init_def)

text \<open>
  C4 as stated fails: with limit 0 the iterator holds the limit 2147483648, which is
  outside the range of a 32-bit signed integer.
\<close>

theorem normalized_limit_exceeds_int32:
  "map_sum id (self_limit \<circ> fst \<circ> snd)
     (iterate_n scripted ''all'' ''natural'' 0 0 0 0 (script_env (Inr 5) [] None)) = Inr 2147483648
   \<and> \<not> fits_int32 2147483648"
  by (simp add: iterate_n_def init_scripted fresh_iterator_def fits_int32_def)

subsection \<open>C5\<close>

text \<open>
  C5. The cursor opened at construction carries the sort order given there. After any
  number of calls of next the iterator still holds that sort order, yet the cursor that
  \<^verbatim>\<open>__reinitialize\<close> opens is the one \<^verbatim>\<open>find\<close> returned with only skip and limit set: its
  sort is unset.
\<close>

theorem reinitialize_drops_sort:
  assumes "init coll f so sk limit dp e0 = (Inr s0, e1)"
    and "advance_n coll n s0 e1 = (rs, s, e2)"
    and "find_opts coll f True (world e) = (Inr h, w)"
  shows "c_sort (self_cursor s0) = Some so \<and> self_sort_opts s = so
         \<and> self_cursor (fst (snd (reinitialize coll s e)))
             = limit_c (self_limit s - self_i s) (skip_c (self_i s + sk) (new_cursor h f True))
         \<and> c_sort (self_cursor (fst (snd (reinitialize coll s e)))) = None"
proof -
  have q: "self_sort_opts s = so" "self_limit s = (if limit = 0 then 2 ^ 31 else limit)"
    "self_skip s = sk" "self_search_opts s = f"
    using advance_n_query[of coll n s0 e1] init_facts[OF assms(1)] assms(2) by simp_all
  have l: "self_limit s \<noteq> 0" using q(2) by auto
  have "self_cursor (fst (snd (reinitialize coll s e)))
          = limit_c (self_limit s - self_i s) (skip_c (self_i s + sk) (new_cursor h f True))"
    using assms(3) l q(3,4)
    by (simp add: reinitialize_def Let_def split: prod.splits sum.splits)
  then show ?thesis
    using q(1) init_facts(4)[OF assms(1)]
    by (simp add: limit_c_def skip_c_def new_cursor_def)
qed

text \<open>
  After one document, on the scripted collection: the cursor of construction is sorted
  by \<open>''natural''\<close>, the reopened one has no sort.
\<close>

theorem reinitialize_drops_sort_witness:
  "c_sort (self_cursor (fresh_iterator 3)) = Some ''natural''
   \<and> c_sort (self_cursor (fst (snd (reinitialize scripted
        (fst (snd (advance_n scripted 1 (fresh_iterator 3) (after_init 3 [Inr 7, Inr 8] None))))
        (after_init 3 [Inr 8] None))))) = None"
proof -
  let ?a = "advance_n scripted 1 (fresh_iterator 3) (after_init 3 [Inr 7, Inr 8] None)"
  have a: "?a = (fst ?a, fst (snd ?a), snd (snd ?a))" by simp
  have f: "find_opts scripted ''all'' True (world (after_init 3 [Inr 8] None))
             = (Inr 1, \<lparr>sc_count = Inr 3, sc_pulls = [Inr 8], sc_close = None, sc_opened = 2\<rparr>)"
    by (simp add: scripted_simps after_init_def)
  show ?thesis
    using reinitialize_drops_sort[OF init_scripted a f] by blast
qed

subsection \<open>C6\<close>

text \<open>
  C6. When the pull on the active cursor raises an exception other than
  \<^verbatim>\<open>CursorNotFound\<close>, next raises that same exception; the iterator, and so the emitted
  count, is unchanged, and the only call made is that one pull: no second pull and no
  \<^verbatim>\<open>find\<close>. When it raises \<^verbatim>\<open>CursorNotFound\<close>, next is \<^verbatim>\<open>__reinitialize\<close>.
\<close>

theorem next_doc_propagates_other_errors:
  assumes "self_i s < self_total_docs s"
    and "cursor_next coll (self_cursor s) (world e) = (Inl ex, w1)"
  shows "next_doc coll s e =
           (if ex = CursorNotFound
            then reinitialize coll s
                   \<lparr>calls = calls e @ [Next (self_cursor s), Print LostCursor], world = w1\<rparr>
            else (Inl ex, s, \<lparr>calls = calls e @ [Next (self_cursor s)], world = w1\<rparr>))"
  using assms by (simp add: next_doc_def do_call_def do_print_def)

theorem next_doc_propagates_other_errors_witness:
  "next_doc scripted (fresh_iterator 2) (after_init 2 [Inl (OtherError ''AutoReconnect''), Inr 7] None)
     = (Inl (OtherError ''AutoReconnect''), fresh_iterator 2,
        \<lparr>calls = calls (after_init 2 [Inl (OtherError ''AutoReconnect''), Inr 7] None)
                   @ [Next (self_cursor (fresh_iterator 2))],
         world = \<lparr>sc_count = Inr 2, sc_pulls = [Inr 7], sc_close = None, sc_opened = 1\<rparr>\<rparr>)"
  using next_doc_propagates_other_errors[of "fresh_iterator 2" scripted
          "after_init 2 [Inl (OtherError ''AutoReconnect''), Inr 7] None"
          "OtherError ''AutoReconnect''"
          "\<lparr>sc_count = Inr 2, sc_pulls = [Inr 7], sc_close = None, sc_opened = 1\<rparr>"]
  by (simp add: scripted_simps after_init_def fresh_iterator_def)

subsection \<open>C7\<close>

text \<open>
  C7, as amended. When next is called with \<open>i \<ge> total_docs\<close> it calls \<^verbatim>\<open>close\<close> on the
  active cursor and nothing else; when \<^verbatim>\<open>close\<close> returns, next signals the end of the
  sequence, and when \<^verbatim>\<open>close\<close> raises, next raises that exception instead. The iterator
  is unchanged.
\<close>

theorem next_doc_when_exhausted:
  assumes "self_total_docs s \<le> self_i s"
    and "cursor_close coll (self_cursor s) (world e) = (cr, w1)"
  shows "next_doc coll s e =
           (case cr of None \<Rightarrow> Inl StopIteration | Some ex \<Rightarrow> Inl ex, s,
            \<lparr>calls = calls e @ [Close (self_cursor s)], world = w1\<rparr>)"
  using assms by (simp add: next_doc_def do_call_def split: option.splits)

theorem next_doc_when_exhausted_witness:
  "next_doc scripted (fresh_iterator 0) (after_init 0 [] None)
     = (Inl StopIteration, fresh_iterator 0,
        \<lparr>calls = calls (after_init 0 [] None) @ [Close (self_cursor (fresh_iterator 0))],
         world = world (after_init 0 [] None)\<rparr>)"
  using next_doc_when_exhausted[of "fresh_iterator 0" scripted "after_init 0 [] None" None
          "world (after_init 0 [] None)"]
  by (simp add: scripted_simps after_init_def fresh_iterator_def)

text \<open>
  C7 as stated fails when \<^verbatim>\<open>close\<close> raises: the count is 0, so the first call of next
  closes the cursor; \<^verbatim>\<open>close\<close> raises, and next raises that exception, not the end of
  the sequence.
\<close>

theorem close_error_not_ignored:
  "map_sum id fst
     (iterate_n scripted ''all'' ''natural'' 0 0 0 1
        (script_env (Inr 0) [] (Some (OtherError ''AutoReconnect''))))
     = Inr [Inl (OtherError ''AutoReconnect'')]
   \<and> Inl (OtherError ''AutoReconnect'') \<noteq> (Inl StopIteration :: exn + int)"
  by (simp add: iterate_n_def init_scripted advance_n_one next_doc_def fresh_iterator_def
        after_init_def scripted_simps do_call_def)

subsection \<open>C8\<close>

text \<open>
  C8, as amended. When the count query answers 0 (and \<^verbatim>\<open>find\<close> and \<^verbatim>\<open>close\<close> return),
  the length of the new iterator is 0; construction has made three calls, the count
  query, its message and one \<^verbatim>\<open>find\<close>; and the first call of next signals the end
  of the sequence after a single call, the \<^verbatim>\<open>close\<close> of that cursor: it makes no
  \<^verbatim>\<open>find\<close> and no pull.
\<close>

theorem empty_result_first_advance:
  assumes "count_documents coll f sk (if limit = 0 then 2 ^ 31 else limit) (world e) = (Inr 0, w1)"
    and "find_opts coll f True w1 = (Inr h, w2)"
    and "c = limit_c (if limit = 0 then 2 ^ 31 else limit) (skip_c sk (sort_c so (new_cursor h f True)))"
    and "cursor_close coll c w2 = (None, w3)"
  shows "\<exists>s0 e0. init coll f so sk limit dp e = (Inr s0, e0)
           \<and> len s0 = 0
           \<and> calls e0 = calls e @ [CountDocuments f sk (if limit = 0 then 2 ^ 31 else limit),
                                    Print (Iterating 0), Find f True]
           \<and> next_doc coll s0 e0 =
               (Inl StopIteration, s0, \<lparr>calls = calls e0 @ [Close c], world = w3\<rparr>)"
proof -
  define lim where "lim = (if limit = 0 then 2 ^ 31 else limit)"
  have c: "count_documents coll f sk lim (world e) = (Inr 0, w1)"
    using assms(1) unfolding lim_def .
  have cl: "cursor_close coll (limit_c lim (skip_c sk (sort_c so (new_cursor h f True)))) w2 = (None, w3)"
    using assms(3,4) unfolding lim_def by simp
  have "\<exists>s0 e0. init coll f so sk limit dp e = (Inr s0, e0)
           \<and> len s0 = 0
           \<and> calls e0 = calls e @ [CountDocuments f sk lim, Print (Iterating 0), Find f True]
           \<and> next_doc coll s0 e0 =
               (Inl StopIteration, s0,
                \<lparr>calls = calls e0 @ [Close (limit_c lim (skip_c sk (sort_c so (new_cursor h f True))))],
                 world = w3\<rparr>)"
    using c cl assms(2)
    by (simp add: init_def lim_def[symmetric] next_doc_def len_def do_call_def do_print_def)
  then show ?thesis using assms(3) unfolding lim_def by simp
qed

theorem empty_result_first_advance_witness:
  "\<exists>s0 e0. init snapshot_db match_none uminus 0 0 0 (lost_at 9) = (Inr s0, e0)
     \<and> len s0 = 0
     \<and> calls e0 = [CountDocuments match_none 0 2147483648, Print (Iterating 0), Find match_none True]
     \<and> fst (next_doc snapshot_db s0 e0) = Inl StopIteration"
proof -
  let ?w = "world (lost_at 9)"
  let ?w2 = "?w\<lparr>sn_opened := Suc 0, sn_pos := (sn_pos ?w)(0 := 0)\<rparr>"
  have c: "count_documents snapshot_db match_none 0 (if (0::int) = 0 then 2 ^ 31 else 0) (world (lost_at 9))
             = (Inr 0, ?w)"
    by (simp add: snapshot_count matched_def apply_limit_def lost_at_def match_none_def)
  have f: "find_opts snapshot_db match_none True ?w = (Inr 0, ?w2)"
    by (simp add: snapshot_find lost_at_def)
  have cl: "cursor_close snapshot_db
              (limit_c (if (0::int) = 0 then 2 ^ 31 else 0) (skip_c 0 (sort_c uminus (new_cursor 0 match_none True)))) ?w2
             = (None, ?w2)"
    by (rule snapshot_close)
  show ?thesis
    using empty_result_first_advance[OF c f refl cl, of 0] by (auto simp add: lost_at_def)
qed

text \<open>
  C8 as stated fails: with a filter that matches no document, construction has called
  \<^verbatim>\<open>find\<close> before next is ever called.
\<close>

theorem empty_result_still_calls_find:
  "map_sum id (calls \<circ> snd \<circ> snd)
     (iterate_n snapshot_db match_none uminus 0 0 0 0 (lost_at 9))
     = Inr [CountDocuments match_none 0 2147483648, Print (Iterating 0), Find match_none True]"
  by (simp add: iterate_n_def init_def snapshot_count snapshot_find matched_def apply_limit_def
        lost_at_def match_none_def do_call_def do_print_def)

subsection \<open>C9\<close>

text \<open>
  C9. \<^verbatim>\<open>__len__\<close> reads \<open>total_docs\<close> and touches nothing else. Right after
  construction it is the answer of the count query, and it is the same after any number
  of calls of next, whatever they return and however often the cursor is reopened; the
  calls made by then hold no count query but the one of construction.
\<close>

theorem len_constant:
  assumes "init coll f so sk limit dp e = (Inr s0, e0)"
    and "count_documents coll f sk (if limit = 0 then 2 ^ 31 else limit) (world e) = (Inr n, w)"
  shows "len s0 = n
         \<and> (\<forall>k. len (fst (snd (advance_n coll k s0 e0))) = n
                \<and> filter is_count (calls (snd (snd (advance_n coll k s0 e0))))
                    = filter is_count (calls e)
                      @ [CountDocuments f sk (if limit = 0 then 2 ^ 31 else limit)])"
proof -
  have t: "self_total_docs s0 = n" using init_count(1)[OF assms] .
  have c: "filter is_count (calls e0)
             = filter is_count (calls e) @ [CountDocuments f sk (if limit = 0 then 2 ^ 31 else limit)]"
    using init_count(2)[OF assms] by simp
  show ?thesis
    using t c by (simp add: len_def advance_n_total_docs advance_n_counts)
qed

text \<open>
  Count 3, and four calls of next of which the second pull loses its cursor: the
  length is 3 before and after.
\<close>

theorem len_constant_witness:
  "len (fresh_iterator 3) = 3
   \<and> len (fst (snd (advance_n scripted 4 (fresh_iterator 3)
                       (after_init 3 [Inr 7, Inl CursorNotFound, Inr 8, Inr 9] None)))) = 3"
proof -
  have c: "count_documents scripted ''all'' 0 (if (0::int) = 0 then 2 ^ 31 else 0)
             (world (script_env (Inr 3) [Inr 7, Inl CursorNotFound, Inr 8, Inr 9] None))
           = (Inr 3, world (script_env (Inr 3) [Inr 7, Inl CursorNotFound, Inr 8, Inr 9] None))"
    by (simp add: scripted_simps script_env_def)
  show ?thesis
    using len_constant[OF init_scripted c] by blast
qed

subsection \<open>C10\<close>

text \<open>
  C10. When \<open>i < total_docs\<close> and the pull on the active cursor raises
  \<^verbatim>\<open>StopIteration\<close>, next raises \<^verbatim>\<open>StopIteration\<close>: the iterator, and so the emitted
  count, is unchanged, and the only call made is that pull, so the cursor is neither
  closed nor reopened. The caller sees the end of the sequence with fewer than
  \<open>total_docs\<close> documents.
\<close>

theorem next_doc_propagates_cursor_end:
  assumes "self_i s < self_total_docs s"
    and "cursor_next coll (self_cursor s) (world e) = (Inl StopIteration, w1)"
  shows "next_doc coll s e =
           (Inl StopIteration, s, \<lparr>calls = calls e @ [Next (self_cursor s)], world = w1\<rparr>)
         \<and> self_i s < self_total_docs s"
  using assms by (simp add: next_doc_def do_call_def)

text \<open>The count was 2 and the collection is empty by the time of the first pull.\<close>

theorem next_doc_propagates_cursor_end_witness:
  "next_doc scripted (fresh_iterator 2) (after_init 2 [] None)
     = (Inl StopIteration, fresh_iterator 2,
        \<lparr>calls = calls (after_init 2 [] None) @ [Next (self_cursor (fresh_iterator 2))],
         world = world (after_init 2 [] None)\<rparr>)
   \<and> self_i (fresh_iterator 2) < self_total_docs (fresh_iterator 2)"
proof -
  have i: "self_i (fresh_iterator 2) < self_total_docs (fresh_iterator 2)"
    by (simp add: fresh_iterator_def)
  have n: "cursor_next scripted (self_cursor (fresh_iterator 2)) (world (after_init 2 [] None))
             = (Inl StopIteration, world (after_init 2 [] None))"
    by (simp add: scripted_simps after_init_def)
  show ?thesis using next_doc_propagates_cursor_end[OF i n] .
qed

end
